theory Spec2Isabelle
  imports Complex_Main "HOL-Library.Char_ord" "HOL-Library.List_Lexorder"
    "HOL-Library.AList" "HOL-Library.Multiset"
begin

section \<open>Python values and exceptions\<close>

text \<open>
  The exceptions that occur in \<^verbatim>\<open>cache.py\<close>. \<open>PicklingError\<close> and
  \<open>UnpicklingError\<close> are the two subclasses of \<open>pickle.PickleError\<close>;
  \<open>OtherError\<close> stands for any other exception class, by name.
\<close>

datatype exn =
    PickleError | PicklingError | UnpicklingError | EOFError
  | TypeError | AttributeError | ImportError | FileNotFoundError
  | OtherError string

text \<open>
  The values that flow through the cache: arguments and results of the wrapped callable.
  Strings are byte lists (UTF-8). A dict is the list of its items and a set the list of its
  elements, both in iteration order. \<open>PGen xs e\<close> is a one-shot lazy iterator (a generator)
  that yields \<open>xs\<close> and then either stops (\<open>e = None\<close>) or raises (\<open>e = Some err\<close>).
  \<open>PObj cls attrs\<close> is an instance of a user class with the given attributes; it has no
  \<^verbatim>\<open>__iter__\<close>.
\<close>

datatype pyval =
    PNone
  | PBool bool
  | PInt int
  | PStr string
  | PList "pyval list"
  | PTuple "pyval list"
  | PDict "(pyval \<times> pyval) list"
  | PSet "pyval list"
  | PGen "pyval list" "exn option"
  | PObj string "(string \<times> pyval) list"

type_synonym kwargs = "(string \<times> pyval) list"

section \<open>Cache._get_cache_key\<close>

text \<open>Decimal digits of a natural number, for \<^verbatim>\<open>str(int)\<close>.\<close>

function dec :: "nat \<Rightarrow> string" where
  "dec n = (if n < 10 then [''0123456789'' ! n]
            else dec (n div 10) @ [''0123456789'' ! (n mod 10)])"
  by pat_completeness auto
termination
  by (relation "measure id") auto

declare dec.simps [simp del]

text \<open>
  Python's \<^verbatim>\<open>str(v)\<close>, which is also what the f-string \<^verbatim>\<open>f"{k}={v}"\<close> applies to \<open>v\<close>.
  For None, booleans, integers and strings the rule is fixed. For containers, generators
  and class instances \<^verbatim>\<open>str\<close> is the object's \<^verbatim>\<open>repr\<close>, which depends on the class (and,
  for a default \<^verbatim>\<open>object.__repr__\<close>, on the address): it is the parameter \<open>repr\<close>.
\<close>

fun str :: "(pyval \<Rightarrow> string) \<Rightarrow> pyval \<Rightarrow> string" where
  "str repr PNone = ''None''"
| "str repr (PBool b) = (if b then ''True'' else ''False'')"
| "str repr (PInt i) = (if i < 0 then ''-'' @ dec (nat (- i)) else dec (nat i))"
| "str repr (PStr s) = s"
| "str repr v = repr v"

text \<open>\<^verbatim>\<open>sep.join(parts)\<close>.\<close>

fun join :: "string \<Rightarrow> string list \<Rightarrow> string" where
  "join sep [] = []"
| "join sep [x] = x"
| "join sep (x # y # ys) = x @ sep @ join sep (y # ys)"

text \<open>
  \<^verbatim>\<open>key_parts\<close> and \<^verbatim>\<open>key_str\<close> are the two locals of \<^verbatim>\<open>_get_cache_key\<close>. The keyword
  arguments are the dict's items in call order; their names are distinct, so
  \<^verbatim>\<open>sorted(kwargs.items())\<close> orders the pairs by name alone (strings compare
  lexicographically by code point, which is the byte order of their UTF-8 form).
  No keyword is named \<^verbatim>\<open>self\<close>, the name of the method's own first parameter: Python
  rejects such a call with \<^verbatim>\<open>TypeError\<close> before the body runs.
\<close>

definition key_parts :: "(pyval \<Rightarrow> string) \<Rightarrow> pyval list \<Rightarrow> kwargs \<Rightarrow> string list" where
  "key_parts repr args kwargs =
     map (str repr) args @ map (\<lambda>(k, v). k @ ''='' @ str repr v) (sort_key fst kwargs)"

definition key_str :: "(pyval \<Rightarrow> string) \<Rightarrow> pyval list \<Rightarrow> kwargs \<Rightarrow> string" where
  "key_str repr args kwargs = join '':'' (key_parts repr args kwargs)"

text \<open>
  \<^verbatim>\<open>hashlib.md5(key_str.encode()).hexdigest()\<close>. The digest is a library function and is
  the parameter \<open>md5\<close> (from the encoded string to the hexadecimal digest).
\<close>

definition get_cache_key ::
  "(string \<Rightarrow> string) \<Rightarrow> (pyval \<Rightarrow> string) \<Rightarrow> pyval list \<Rightarrow> kwargs \<Rightarrow> string" where
  "get_cache_key md5 repr args kwargs = md5 (key_str repr args kwargs)"

section \<open>The cache directory and pickle\<close>

text \<open>
  A file is addressed by its directory and its name. The file system is the list of the
  files that exist, each path at most once. The directory of a cache exists from its
  constructor on (\<^verbatim>\<open>mkdir(parents=True, exist_ok=True)\<close>); failures of the medium
  (permissions, a full disk) are not modelled. Timestamps (\<^verbatim>\<open>time.time()\<close>,
  \<^verbatim>\<open>st_mtime\<close>) are seconds as exact numbers.

  \<^verbatim>\<open>pickle\<close> is a library: the content of a file is described by what \<^verbatim>\<open>pickle.load\<close>
  does on it. \<open>Pickled v\<close> is what \<^verbatim>\<open>pickle.dump(v, f)\<close> wrote, from which the load
  returns a value equal to \<open>v\<close>; \<open>Truncated\<close> is the file as \<^verbatim>\<open>open(path, 'wb')\<close> leaves it
  when nothing complete was written (the load runs out of input); \<open>Undecodable e\<close> is any
  other content, on which the load raises \<open>e\<close>.
\<close>

datatype file_data = Pickled pyval | Truncated | Undecodable exn

record cache_file =
  mtime :: real
  content :: file_data

type_synonym path = "string \<times> string"

type_synonym fs = "(path \<times> cache_file) list"

text \<open>A value can be pickled when no generator occurs in it.\<close>

fun picklable :: "pyval \<Rightarrow> bool" where
  "picklable (PGen xs e) = False"
| "picklable (PList xs) = list_all picklable xs"
| "picklable (PTuple xs) = list_all picklable xs"
| "picklable (PSet xs) = list_all picklable xs"
| "picklable (PDict kvs) = list_all (\<lambda>kv. picklable (fst kv) \<and> picklable (snd kv)) kvs"
| "picklable (PObj cls attrs) = list_all (\<lambda>a. picklable (snd a)) attrs"
| "picklable v = True"

definition pickle_dump :: "pyval \<Rightarrow> exn + file_data" where
  "pickle_dump v = (if picklable v then Inr (Pickled v) else Inl TypeError)"

fun pickle_load :: "file_data \<Rightarrow> exn + pyval" where
  "pickle_load (Pickled v) = Inr v"
| "pickle_load Truncated = Inl EOFError"
| "pickle_load (Undecodable e) = Inl e"

section \<open>class Cache\<close>

record cache =
  cache_dir :: string
  ttl :: int

text \<open>\<^verbatim>\<open>Cache.__init__\<close>; \<open>home\<close> is \<^verbatim>\<open>Path.home()\<close>.\<close>

definition Cache :: "string \<Rightarrow> string option \<Rightarrow> int \<Rightarrow> cache" where
  "Cache home dir t =
     \<lparr>cache_dir = (case dir of None \<Rightarrow> home @ ''/.aws_log_parser_cache'' | Some d \<Rightarrow> d),
      ttl = t\<rparr>"

text \<open>
  \<^verbatim>\<open>self.cache_dir / f"{key}.pickle"\<close>. A key is a hexadecimal digest or another plain
  name, with no path separator in it.
\<close>

definition get_cache_path :: "cache \<Rightarrow> string \<Rightarrow> path" where
  "get_cache_path c key = (cache_dir c, key @ ''.pickle'')"

text \<open>
  \<^verbatim>\<open>except (pickle.PickleError, EOFError)\<close>: the exceptions that \<^verbatim>\<open>Cache.get\<close> catches.
\<close>

fun caught :: "exn \<Rightarrow> bool" where
  "caught PickleError = True"
| "caught PicklingError = True"
| "caught UnpicklingError = True"
| "caught EOFError = True"
| "caught e = False"

text \<open>
  \<^verbatim>\<open>Cache.get\<close> at time \<open>now\<close>: the pair \<^verbatim>\<open>(hit, value)\<close>, or the exception that leaves
  the method.
\<close>

definition get :: "cache \<Rightarrow> fs \<Rightarrow> real \<Rightarrow> string \<Rightarrow> exn + bool \<times> pyval" where
  "get c files now key =
     (case map_of files (get_cache_path c key) of
        None \<Rightarrow> Inr (False, PNone)
      | Some f \<Rightarrow>
          if now - mtime f > real_of_int (ttl c) then Inr (False, PNone)
          else (case pickle_load (content f) of
                  Inr v \<Rightarrow> Inr (True, v)
                | Inl e \<Rightarrow> if caught e then Inr (False, PNone) else Inl e))"

text \<open>
  \<^verbatim>\<open>Cache.set\<close> at time \<open>now\<close>: the exception raised, if any, and the file system after.
  The file is opened for writing (created or emptied, and stamped) before the value is
  pickled.
\<close>

definition set_entry :: "cache \<Rightarrow> fs \<Rightarrow> real \<Rightarrow> string \<Rightarrow> pyval \<Rightarrow> exn option \<times> fs" where
  "set_entry c files now key v =
     (case pickle_dump v of
        Inl e \<Rightarrow>
          (Some e, AList.update (get_cache_path c key) \<lparr>mtime = now, content = Truncated\<rparr> files)
      | Inr d \<Rightarrow>
          (None, AList.update (get_cache_path c key) \<lparr>mtime = now, content = d\<rparr> files))"

text \<open>\<^verbatim>\<open>self.cache_dir.glob('*.pickle')\<close>: the matching files of the directory.\<close>

definition is_pickle_name :: "string \<Rightarrow> bool" where
  "is_pickle_name n = (take 7 (rev n) = rev ''.pickle'')"

definition glob_pickle :: "cache \<Rightarrow> fs \<Rightarrow> path list" where
  "glob_pickle c files =
     filter (\<lambda>p. fst p = cache_dir c \<and> is_pickle_name (snd p)) (map fst files)"

text \<open>\<^verbatim>\<open>Cache.clear\<close>.\<close>

fun clear_loop :: "path list \<Rightarrow> fs \<Rightarrow> fs" where
  "clear_loop [] files = files"
| "clear_loop (p # ps) files = clear_loop ps (AList.delete p files)"

definition clear :: "cache \<Rightarrow> fs \<Rightarrow> fs" where
  "clear c files = clear_loop (glob_pickle c files) files"

text \<open>
  \<^verbatim>\<open>Cache.clear_expired\<close>. The loop reads the clock once per file: \<open>clock i\<close> is the
  reading of iteration \<open>i\<close>. \<^verbatim>\<open>stat\<close> raises for a file that is not there.
\<close>

fun clear_expired_loop ::
  "cache \<Rightarrow> (nat \<Rightarrow> real) \<Rightarrow> nat \<Rightarrow> path list \<Rightarrow> fs \<Rightarrow> exn + fs" where
  "clear_expired_loop c clock i [] files = Inr files"
| "clear_expired_loop c clock i (p # ps) files =
     (case map_of files p of
        None \<Rightarrow> Inl FileNotFoundError
      | Some f \<Rightarrow>
          clear_expired_loop c clock (Suc i) ps
            (if clock i - mtime f > real_of_int (ttl c) then AList.delete p files else files))"

definition clear_expired :: "cache \<Rightarrow> (nat \<Rightarrow> real) \<Rightarrow> fs \<Rightarrow> exn + fs" where
  "clear_expired c clock files = clear_expired_loop c clock 0 (glob_pickle c files) files"

section \<open>The decorator \<^verbatim>\<open>cached\<close>\<close>

text \<open>
  The wrapped callable: its \<^verbatim>\<open>__name__\<close> and what a call with the given positional and
  keyword arguments does, which is to return a value or to raise.
\<close>

record pyfunc =
  func_name :: string
  func_call :: "pyval list \<Rightarrow> kwargs \<Rightarrow> exn + pyval"

text \<open>Truth value of a Python value, as \<^verbatim>\<open>if\<close>, \<^verbatim>\<open>not\<close> and \<^verbatim>\<open>and\<close> take it.\<close>

fun truthy :: "pyval \<Rightarrow> bool" where
  "truthy PNone = False"
| "truthy (PBool b) = b"
| "truthy (PInt i) = (i \<noteq> 0)"
| "truthy (PStr s) = (s \<noteq> [])"
| "truthy (PList xs) = (xs \<noteq> [])"
| "truthy (PTuple xs) = (xs \<noteq> [])"
| "truthy (PDict kvs) = (kvs \<noteq> [])"
| "truthy (PSet xs) = (xs \<noteq> [])"
| "truthy (PGen xs e) = True"
| "truthy (PObj cls attrs) = True"

text \<open>\<^verbatim>\<open>hasattr(result, '__iter__')\<close>.\<close>

fun has_iter :: "pyval \<Rightarrow> bool" where
  "has_iter (PStr s) = True"
| "has_iter (PList xs) = True"
| "has_iter (PTuple xs) = True"
| "has_iter (PDict kvs) = True"
| "has_iter (PSet xs) = True"
| "has_iter (PGen xs e) = True"
| "has_iter v = False"

text \<open>\<^verbatim>\<open>isinstance(result, (list, tuple, dict))\<close>.\<close>

fun is_list_tuple_dict :: "pyval \<Rightarrow> bool" where
  "is_list_tuple_dict (PList xs) = True"
| "is_list_tuple_dict (PTuple xs) = True"
| "is_list_tuple_dict (PDict kvs) = True"
| "is_list_tuple_dict v = False"

text \<open>
  \<^verbatim>\<open>list(result)\<close>: the items of an iterable in iteration order; the exception of a
  generator that raises; \<^verbatim>\<open>TypeError\<close> for a value that is not iterable.
\<close>

fun list_of :: "pyval \<Rightarrow> exn + pyval" where
  "list_of (PStr s) = Inr (PList (map (\<lambda>ch. PStr [ch]) s))"
| "list_of (PList xs) = Inr (PList xs)"
| "list_of (PTuple xs) = Inr (PList xs)"
| "list_of (PDict kvs) = Inr (PList (map fst kvs))"
| "list_of (PSet xs) = Inr (PList xs)"
| "list_of (PGen xs None) = Inr (PList xs)"
| "list_of (PGen xs (Some e)) = Inl e"
| "list_of v = Inl TypeError"

text \<open>\<^verbatim>\<open>args and hasattr(args[0], 'verbose') and args[0].verbose\<close>.\<close>

fun verbose :: "pyval list \<Rightarrow> bool" where
  "verbose (PObj cls attrs # rest) =
     (case map_of attrs ''verbose'' of None \<Rightarrow> False | Some v \<Rightarrow> truthy v)"
| "verbose args = False"

text \<open>
  What one call of the wrapper does: the value returned or the exception raised, the file
  system after the call, the calls made to the wrapped callable (with the arguments it
  received) and the lines printed.
\<close>

record run =
  result :: "exn + pyval"
  files_after :: fs
  calls :: "(pyval list \<times> kwargs) list"
  printed :: "string list"

text \<open>
  \<^verbatim>\<open>wrapper(*args, **kwargs)\<close> inside \<^verbatim>\<open>cached(ttl, cache_dir)(func)\<close>, where \<open>c\<close> is the
  \<^verbatim>\<open>Cache\<close> that \<^verbatim>\<open>cached\<close> built. \<open>t_get\<close> is the clock reading inside \<^verbatim>\<open>cache.get\<close> and
  \<open>t_set\<close> the time at which \<^verbatim>\<open>cache.set\<close> writes the file. \<open>fresh\<close> is the part of the
  body from \<^verbatim>\<open>result = func(*args, **kwargs)\<close> on.
\<close>

definition wrapper ::
  "(string \<Rightarrow> string) \<Rightarrow> (pyval \<Rightarrow> string) \<Rightarrow> cache \<Rightarrow> pyfunc \<Rightarrow> real \<Rightarrow> real
     \<Rightarrow> pyval list \<Rightarrow> kwargs \<Rightarrow> fs \<Rightarrow> run" where
  "wrapper md5 repr c func t_get t_set args kwargs0 files =
     (let force_refresh =
            (case map_of kwargs0 ''force_refresh'' of None \<Rightarrow> PBool False | Some v \<Rightarrow> v);
          kwargs = AList.delete ''force_refresh'' kwargs0;
          cache_key = get_cache_key md5 repr (PStr (func_name func) # args) kwargs;
          fresh =
            (case func_call func args kwargs of
               Inl e \<Rightarrow>
                 \<lparr>result = Inl e, files_after = files, calls = [(args, kwargs)], printed = []\<rparr>
             | Inr r \<Rightarrow>
                 (case (if has_iter r \<and> \<not> is_list_tuple_dict r then list_of r else Inr r) of
                    Inl e \<Rightarrow>
                      \<lparr>result = Inl e, files_after = files, calls = [(args, kwargs)],
                       printed = []\<rparr>
                  | Inr r' \<Rightarrow>
                      (case set_entry c files t_set cache_key r' of
                         (Some e, files') \<Rightarrow>
                           \<lparr>result = Inl e, files_after = files', calls = [(args, kwargs)],
                            printed = []\<rparr>
                       | (None, files') \<Rightarrow>
                           \<lparr>result = Inr r', files_after = files', calls = [(args, kwargs)],
                            printed = []\<rparr>)))
      in if \<not> truthy force_refresh then
           (case get c files t_get cache_key of
              Inl e \<Rightarrow> \<lparr>result = Inl e, files_after = files, calls = [], printed = []\<rparr>
            | Inr (hit, v) \<Rightarrow>
                if hit then
                  \<lparr>result = Inr v, files_after = files, calls = [],
                   printed = (if verbose args
                              then [''Using cached data for '' @ func_name func] else [])\<rparr>
                else fresh)
         else fresh)"

text \<open>\<^verbatim>\<open>cached(ttl, cache_dir)(func)\<close>: the wrapper over a cache built from the arguments.\<close>

definition cached ::
  "(string \<Rightarrow> string) \<Rightarrow> (pyval \<Rightarrow> string) \<Rightarrow> string \<Rightarrow> int \<Rightarrow> string option \<Rightarrow> pyfunc
     \<Rightarrow> real \<Rightarrow> real \<Rightarrow> pyval list \<Rightarrow> kwargs \<Rightarrow> fs \<Rightarrow> run" where
  "cached md5 repr home t dir func = wrapper md5 repr (Cache home dir t) func"

section \<open>Auxiliary definitions for the statements and proofs\<close>

text \<open>The index of the first occurrence of an element in a list.\<close>

fun position :: "'a \<Rightarrow> 'a list \<Rightarrow> nat option" where
  "position p [] = None"
| "position p (q # qs) = (if p = q then Some 0 else map_option Suc (position p qs))"

text \<open>
  The tail of the body of \<^verbatim>\<open>wrapper\<close>, from \<^verbatim>\<open>result = func(*args, **kwargs)\<close> to the
  end, as a function of the key and the cleaned keyword arguments. It is the term bound
  to \<open>fresh\<close> in the definition of \<open>wrapper\<close>, named for use in the proofs.
\<close>

definition fresh_run ::
  "cache \<Rightarrow> pyfunc \<Rightarrow> string \<Rightarrow> real \<Rightarrow> pyval list \<Rightarrow> kwargs \<Rightarrow> fs \<Rightarrow> run" where
  "fresh_run c func cache_key t_set args kwargs files =
     (case func_call func args kwargs of
        Inl e \<Rightarrow>
          \<lparr>result = Inl e, files_after = files, calls = [(args, kwargs)], printed = []\<rparr>
      | Inr r \<Rightarrow>
          (case (if has_iter r \<and> \<not> is_list_tuple_dict r then list_of r else Inr r) of
             Inl e \<Rightarrow>
               \<lparr>result = Inl e, files_after = files, calls = [(args, kwargs)], printed = []\<rparr>
           | Inr r' \<Rightarrow>
               (case set_entry c files t_set cache_key r' of
                  (Some e, files') \<Rightarrow>
                    \<lparr>result = Inl e, files_after = files', calls = [(args, kwargs)],
                     printed = []\<rparr>
                | (None, files') \<Rightarrow>
                    \<lparr>result = Inr r', files_after = files', calls = [(args, kwargs)],
                     printed = []\<rparr>)))"

section \<open>Properties of the key encoder\<close>

lemma filter_key_distinct:
  "distinct (map f zs) \<Longrightarrow> k \<in> set zs \<Longrightarrow> filter (\<lambda>x. f k = f x) zs = [k]"
proof (induction zs)
  case Nil then show ?case by simp
next
  case (Cons z zs)
  show ?case
  proof (cases "k = z")
    case True
    have "filter (\<lambda>x. f z = f x) zs = []"
      using Cons.prems(1) by (auto simp: filter_empty_conv)
    with True show ?thesis by simp
  next
    case False
    with Cons.prems have kin: "k \<in> set zs" and d: "distinct (map f zs)" and "f z \<notin> f ` set zs"
      by auto
    then have "f k \<noteq> f z" by (metis image_eqI)
    with Cons.IH[OF d kin] show ?thesis by simp
  qed
qed

lemma sort_key_perm:
  assumes d: "distinct (map f xs)" and m: "mset ys = mset xs"
  shows "sort_key f ys = sort_key f xs"
proof -
  have dy: "distinct (map f ys)"
    by (metis d m distinct_map mset_eq_setD mset_eq_imp_distinct_iff)
  have "sort_key f xs = sort_key f ys"
  proof (rule properties_for_sort_key)
    show "mset (sort_key f ys) = mset xs" using m by simp
    show "sorted (map f (sort_key f ys))" by simp
    fix k assume "k \<in> set (sort_key f ys)"
    then have ky: "k \<in> set ys" by simp
    then have kx: "k \<in> set xs" using m mset_eq_setD by blast
    have ds: "distinct (map f (sort_key f ys))"
      using dy by (metis distinct_map distinct_sort set_sort)
    show "filter (\<lambda>x. f k = f x) (sort_key f ys) = filter (\<lambda>x. f k = f x) xs"
      using filter_key_distinct[OF ds] filter_key_distinct[OF d kx] ky by simp
  qed
  then show ?thesis by simp
qed

text \<open>
  Claim C8. Key encoding is a function of the function identity, the positional arguments
  in order and the keyword mapping, not of the order in which the keywords were written:
  two keyword lists with the same (distinct-name) items in any order give the same key,
  for every digest and every \<^verbatim>\<open>repr\<close>, because the items are sorted by name before they
  are converted.
\<close>

theorem key_independent_of_keyword_order:
  assumes "distinct (map fst kwargs)" and "mset kwargs' = mset kwargs"
  shows "get_cache_key md5 repr (fid # args) kwargs' = get_cache_key md5 repr (fid # args) kwargs"
  using sort_key_perm[OF assms] by (simp add: get_cache_key_def key_str_def key_parts_def)

text \<open>
  An instance: \<^verbatim>\<open>read(10, days=7, region='eu')\<close> and \<^verbatim>\<open>read(10, region='eu', days=7)\<close>;
  the canonical string of both is \<^verbatim>\<open>read:10:days=7:region=eu\<close>.
\<close>

theorem key_independent_of_keyword_order_witness:
  "distinct (map fst [(''region'', PStr ''eu''), (''days'', PInt 7)])
   \<and> mset [(''days'', PInt 7), (''region'', PStr ''eu'')]
       = mset [(''region'', PStr ''eu''), (''days'', PInt 7)]
   \<and> (\<forall>md5 repr.
        get_cache_key md5 repr [PStr ''read'', PInt 10] [(''days'', PInt 7), (''region'', PStr ''eu'')]
        = get_cache_key md5 repr [PStr ''read'', PInt 10] [(''region'', PStr ''eu''), (''days'', PInt 7)])
   \<and> (\<forall>repr. key_str repr [PStr ''read'', PInt 10] [(''region'', PStr ''eu''), (''days'', PInt 7)]
        = ''read:10:days=7:region=eu'')"
proof -
  have d: "distinct (map fst [(''region'', PStr ''eu''), (''days'', PInt 7)])" by simp
  have m: "mset [(''days'', PInt 7), (''region'', PStr ''eu'')]
       = mset [(''region'', PStr ''eu''), (''days'', PInt 7)]" by simp
  have s: "key_str repr [PStr ''read'', PInt 10] [(''region'', PStr ''eu''), (''days'', PInt 7)]
        = ''read:10:days=7:region=eu''" for repr
    by (simp add: key_str_def key_parts_def dec.simps less_eq_char_def less_char_def)
  show ?thesis
    using d m s key_independent_of_keyword_order[OF d m] by blast
qed

lemma length_join:
  "length (join sep xs) = sum_list (map length xs) + length sep * (length xs - 1)"
  by (induction sep xs rule: join.induct) simp_all

lemma sum_list_sort_key: "sum_list (map h (sort_key f xs)) = sum_list (map (h :: 'a \<Rightarrow> nat) xs)"
proof -
  have "mset (map h (sort_key f xs)) = mset (map h xs)" by simp
  then show ?thesis by (metis sum_mset_sum_list)
qed

lemma length_key_str:
  "length (key_str repr args kwargs) =
     sum_list (map (\<lambda>a. length (str repr a)) args)
     + sum_list (map (\<lambda>(k, v). length k + 1 + length (str repr v)) kwargs)
     + (length args + length kwargs - 1)"
proof -
  have "sum_list (map length (map (\<lambda>(k, v). k @ ''='' @ str repr v) (sort_key fst kwargs)))
        = sum_list (map (\<lambda>(k, v). length k + 1 + length (str repr v)) kwargs)"
    unfolding map_map sum_list_sort_key
    by (rule arg_cong[where f = sum_list]) (auto simp: fun_eq_iff)
  then show ?thesis
    by (simp add: key_str_def key_parts_def length_join comp_def)
qed

lemma key_str_positional_neq_keyword:
  "key_str repr (fid # pre @ v # post) kwargs \<noteq> key_str repr (fid # pre @ post) ((name, v) # kwargs)"
proof -
  have "length (key_str repr (fid # pre @ post) ((name, v) # kwargs))
        = length (key_str repr (fid # pre @ v # post) kwargs) + length name + 1"
    by (simp add: length_key_str)
  then show ?thesis by auto
qed

text \<open>
  Claim C9. The encoder distinguishes how an argument is passed. A positional \<open>v\<close>
  contributes the part \<^verbatim>\<open>str(v)\<close>, the keyword \<open>name=v\<close> contributes \<^verbatim>\<open>name=str(v)\<close>. With
  all other arguments equal, the canonical string of the call that passes \<open>v\<close>
  positionally differs from that of the call that passes it by keyword (the second is
  longer by the name and the equals sign), so the two keys and the two cache files differ
  whenever the digest does not collide on these two strings.
\<close>

theorem positional_and_keyword_keys_differ:
  assumes "inj_on md5 {key_str repr (fid # pre @ v # post) kwargs,
                       key_str repr (fid # pre @ post) ((name, v) # kwargs)}"
  shows "key_parts repr [v] [] = [str repr v]
       \<and> key_parts repr [] [(name, v)] = [name @ ''='' @ str repr v]
       \<and> key_str repr (fid # pre @ v # post) kwargs
           \<noteq> key_str repr (fid # pre @ post) ((name, v) # kwargs)
       \<and> get_cache_key md5 repr (fid # pre @ v # post) kwargs
           \<noteq> get_cache_key md5 repr (fid # pre @ post) ((name, v) # kwargs)
       \<and> get_cache_path c (get_cache_key md5 repr (fid # pre @ v # post) kwargs)
           \<noteq> get_cache_path c (get_cache_key md5 repr (fid # pre @ post) ((name, v) # kwargs))"
proof -
  have "md5 (key_str repr (fid # pre @ v # post) kwargs)
        \<noteq> md5 (key_str repr (fid # pre @ post) ((name, v) # kwargs))"
    using assms key_str_positional_neq_keyword[of repr fid pre v post kwargs name]
    by (auto simp: inj_on_def)
  then show ?thesis
    using key_str_positional_neq_keyword[of repr fid pre v post kwargs name]
    by (simp add: get_cache_key_def get_cache_path_def key_parts_def)
qed

text \<open>
  An instance, \<^verbatim>\<open>read(7)\<close> against \<^verbatim>\<open>read(days=7)\<close>, with the identity as a collision-free
  digest: the canonical strings are \<^verbatim>\<open>read:7\<close> and \<^verbatim>\<open>read:days=7\<close>.
\<close>

theorem positional_and_keyword_keys_differ_witness:
  "inj_on (\<lambda>s. s) {key_str (\<lambda>v. []) (PStr ''read'' # [] @ PInt 7 # []) [],
                   key_str (\<lambda>v. []) (PStr ''read'' # [] @ []) [(''days'', PInt 7)]}
   \<and> key_str (\<lambda>v. []) [PStr ''read'', PInt 7] [] = ''read:7''
   \<and> key_str (\<lambda>v. []) [PStr ''read''] [(''days'', PInt 7)] = ''read:days=7''
   \<and> get_cache_key (\<lambda>s. s) (\<lambda>v. []) [PStr ''read'', PInt 7] []
       \<noteq> get_cache_key (\<lambda>s. s) (\<lambda>v. []) [PStr ''read''] [(''days'', PInt 7)]"
proof -
  have i: "inj_on (\<lambda>s. s) {key_str (\<lambda>v. []) (PStr ''read'' # [] @ PInt 7 # []) [],
                   key_str (\<lambda>v. []) (PStr ''read'' # [] @ []) [(''days'', PInt 7)]}"
    by simp
  have a: "key_str (\<lambda>v. []) [PStr ''read'', PInt 7] [] = ''read:7''"
    by (simp add: key_str_def key_parts_def dec.simps)
  have b: "key_str (\<lambda>v. []) [PStr ''read''] [(''days'', PInt 7)] = ''read:days=7''"
    by (simp add: key_str_def key_parts_def dec.simps)
  show ?thesis
    using i a b positional_and_keyword_keys_differ[OF i, of "\<lparr>cache_dir = [], ttl = 0\<rparr>"]
    by simp
qed

section \<open>Properties of the store\<close>

lemma set_entry_if:
  "set_entry c files t k v =
     (if picklable v
      then (None, AList.update (get_cache_path c k) \<lparr>mtime = t, content = Pickled v\<rparr> files)
      else (Some TypeError,
            AList.update (get_cache_path c k) \<lparr>mtime = t, content = Truncated\<rparr> files))"
  by (simp add: set_entry_def pickle_dump_def)

text \<open>Writing an entry keeps every path unique.\<close>

lemma set_entry_distinct:
  "distinct (map fst files) \<Longrightarrow> distinct (map fst (snd (set_entry c files t k v)))"
  by (simp add: set_entry_if distinct_update)

lemma get_after_set:
  "picklable v \<Longrightarrow>
   get c (snd (set_entry c files t0 k v)) t k =
     (if t - t0 > real_of_int (ttl c) then Inr (False, PNone) else Inr (True, v))"
  by (simp add: get_def set_entry_def pickle_dump_def update_conv')

text \<open>
  Claim C2. An entry written by \<^verbatim>\<open>set\<close> at time \<open>t0\<close> into a store with ttl \<open>T\<close> is
  returned by \<^verbatim>\<open>get\<close> at every query time in \<open>[t0, t0 + T]\<close> and is a miss at every
  query time after \<open>t0 + T\<close>. \<^verbatim>\<open>get\<close> takes the query time as an argument and does not
  change the files, so both halves speak about reads of the same stored state: validity is
  decided anew at each read.
\<close>

theorem ttl_expiry:
  assumes "picklable v"
  shows "(t0 \<le> t \<and> t \<le> t0 + real_of_int (ttl c)
            \<longrightarrow> get c (snd (set_entry c files t0 k v)) t k = Inr (True, v))
       \<and> (t > t0 + real_of_int (ttl c)
            \<longrightarrow> get c (snd (set_entry c files t0 k v)) t k = Inr (False, PNone))"
  using get_after_set[OF assms, of c files t0 k t] by auto

text \<open>
  An instance, with ttl 1 and the write at time 0: a hit at time 0.5 and a miss at time 1.5.
\<close>

theorem ttl_expiry_witness:
  "picklable (PInt 42)
   \<and> (0::real) \<le> 1 / 2 \<and> (1 / 2 :: real) \<le> 0 + real_of_int (ttl \<lparr>cache_dir = ''d'', ttl = 1\<rparr>)
   \<and> get \<lparr>cache_dir = ''d'', ttl = 1\<rparr>
         (snd (set_entry \<lparr>cache_dir = ''d'', ttl = 1\<rparr> [] 0 ''k'' (PInt 42))) (1 / 2) ''k''
       = Inr (True, PInt 42)
   \<and> (3 / 2 :: real) > 0 + real_of_int (ttl \<lparr>cache_dir = ''d'', ttl = 1\<rparr>)
   \<and> get \<lparr>cache_dir = ''d'', ttl = 1\<rparr>
         (snd (set_entry \<lparr>cache_dir = ''d'', ttl = 1\<rparr> [] 0 ''k'' (PInt 42))) (3 / 2) ''k''
       = Inr (False, PNone)"
proof -
  have p: "picklable (PInt 42)" by simp
  show ?thesis
    using p ttl_expiry[OF p, of 0 "1 / 2" "\<lparr>cache_dir = ''d'', ttl = 1\<rparr>" "[]" "''k''"]
      ttl_expiry[OF p, of 0 "3 / 2" "\<lparr>cache_dir = ''d'', ttl = 1\<rparr>" "[]" "''k''"]
    by simp
qed

text \<open>
  Claim C6 as stated, for every store, fails at a store with a negative ttl: with ttl
  \<open>-1\<close>, the value 42 written at time 0 and read at the same time 0 has age 0, which
  exceeds the ttl, and \<^verbatim>\<open>get\<close> reports a miss.
\<close>

theorem roundtrip_negative_ttl_counterexample:
  "picklable (PInt 42)
   \<and> get \<lparr>cache_dir = ''d'', ttl = - 1\<rparr>
        (snd (set_entry \<lparr>cache_dir = ''d'', ttl = - 1\<rparr> [] 0 ''k'' (PInt 42))) 0 ''k''
       = Inr (False, PNone)"
  by (simp add: get_def set_entry_def pickle_dump_def get_cache_path_def)

text \<open>
  Claim C6, amended. \<^verbatim>\<open>set(k, v)\<close> followed by \<^verbatim>\<open>get(k)\<close> on the same store returns
  \<^verbatim>\<open>(True, v)\<close> for every key and every picklable \<open>v\<close> (a list included), provided the read
  happens no later than ttl seconds after the write; for an immediate read this is the
  condition that ttl is not negative.
\<close>

theorem roundtrip_within_ttl:
  assumes "picklable v" and "t - t0 \<le> real_of_int (ttl c)"
  shows "get c (snd (set_entry c files t0 k v)) t k = Inr (True, v)"
  using get_after_set[OF assms(1), of c files t0 k t] assms(2) by simp

theorem roundtrip_within_ttl_witness:
  "picklable (PList [PInt 1, PStr ''a''])
   \<and> (0::real) - 0 \<le> real_of_int (ttl \<lparr>cache_dir = ''d'', ttl = 0\<rparr>)
   \<and> get \<lparr>cache_dir = ''d'', ttl = 0\<rparr>
         (snd (set_entry \<lparr>cache_dir = ''d'', ttl = 0\<rparr> [] 0 ''k'' (PList [PInt 1, PStr ''a''])))
         0 ''k''
       = Inr (True, PList [PInt 1, PStr ''a''])"
proof -
  have p: "picklable (PList [PInt 1, PStr ''a''])" by simp
  have t: "(0::real) - 0 \<le> real_of_int (ttl \<lparr>cache_dir = ''d'', ttl = 0\<rparr>)" by simp
  show ?thesis
    using p t roundtrip_within_ttl[OF p t, of "[]" "''k''"] by simp
qed

text \<open>When \<^verbatim>\<open>Cache.get\<close> reports a miss, and when it raises.\<close>

lemma get_miss_iff:
  "get c files now key = Inr (False, v) \<longleftrightarrow>
     v = PNone \<and>
     (map_of files (get_cache_path c key) = None
      \<or> (\<exists>f. map_of files (get_cache_path c key) = Some f \<and> now - mtime f > real_of_int (ttl c))
      \<or> (\<exists>f e. map_of files (get_cache_path c key) = Some f \<and> pickle_load (content f) = Inl e
             \<and> caught e))"
  by (auto simp: get_def split: option.splits sum.splits)

lemma get_raises_iff:
  "get c files now key = Inl e \<longleftrightarrow>
     (\<exists>f. map_of files (get_cache_path c key) = Some f \<and> \<not> now - mtime f > real_of_int (ttl c)
          \<and> pickle_load (content f) = Inl e \<and> \<not> caught e)"
  by (auto simp: get_def split: option.splits sum.splits)

text \<open>
  Claim C4 says that every failure to decode the stored payload is a miss. \<^verbatim>\<open>Cache.get\<close>
  catches \<^verbatim>\<open>pickle.PickleError\<close> and \<^verbatim>\<open>EOFError\<close> only. A fresh file on which
  \<^verbatim>\<open>pickle.load\<close> raises another exception (\<^verbatim>\<open>ImportError\<close> for a pickle that names a
  module which is gone, \<^verbatim>\<open>AttributeError\<close> for a class that is gone) makes \<^verbatim>\<open>get\<close> raise.
\<close>

theorem get_propagates_other_decoding_errors:
  "get \<lparr>cache_dir = ''d'', ttl = 3600\<rparr>
     [((''d'', ''k.pickle''), \<lparr>mtime = 0, content = Undecodable ImportError\<rparr>)] 1 ''k''
   = Inl ImportError"
  by (simp add: get_def get_cache_path_def)

lemma clear_expired_loop_spec:
  "distinct ps \<Longrightarrow> \<forall>p\<in>set ps. map_of files p \<noteq> None \<Longrightarrow>
   \<exists>files'. clear_expired_loop c clock i ps files = Inr files' \<and>
     (\<forall>p. map_of files' p =
        (case position p ps of
           None \<Rightarrow> map_of files p
         | Some j \<Rightarrow>
             (case map_of files p of
                None \<Rightarrow> None
              | Some f \<Rightarrow> if clock (i + j) - mtime f > real_of_int (ttl c) then None else Some f)))"
proof (induction ps arbitrary: i files)
  case Nil
  then show ?case by simp
next
  case (Cons q qs)
  from Cons.prems obtain f where f: "map_of files q = Some f" by auto
  define files1 where
    "files1 = (if clock i - mtime f > real_of_int (ttl c) then AList.delete q files else files)"
  have keep: "map_of files1 p = map_of files p" if "p \<noteq> q" for p
    using that by (simp add: files1_def)
  have q1: "map_of files1 q = (if clock i - mtime f > real_of_int (ttl c) then None else Some f)"
    by (simp add: files1_def f delete_conv')
  have qn: "q \<notin> set qs" and dq: "distinct qs" using Cons.prems(1) by auto
  have pres: "\<forall>p\<in>set qs. map_of files1 p \<noteq> None"
    using Cons.prems(2) qn keep by (metis list.set_intros(2))
  from Cons.IH[OF dq pres, of "Suc i"] obtain files' where
    run: "clear_expired_loop c clock (Suc i) qs files1 = Inr files'" and
    spec: "\<And>p. map_of files' p =
        (case position p qs of
           None \<Rightarrow> map_of files1 p
         | Some j \<Rightarrow>
             (case map_of files1 p of
                None \<Rightarrow> None
              | Some f \<Rightarrow> if clock (Suc i + j) - mtime f > real_of_int (ttl c) then None else Some f))"
    by blast
  have pq: "position q qs = None" using qn by (induction qs) auto
  have "clear_expired_loop c clock i (q # qs) files = Inr files'"
    using run by (simp add: f files1_def)
  moreover have "map_of files' p =
        (case position p (q # qs) of
           None \<Rightarrow> map_of files p
         | Some j \<Rightarrow>
             (case map_of files p of
                None \<Rightarrow> None
              | Some f \<Rightarrow> if clock (i + j) - mtime f > real_of_int (ttl c) then None else Some f))" for p
  proof (cases "p = q")
    case True
    then show ?thesis using spec[of q] pq q1 f by simp
  next
    case False
    then show ?thesis using spec[of p] keep[OF False]
      by (simp split: option.splits)
  qed
  ultimately show ?case by blast
qed

lemma glob_pickle_props:
  "distinct (map fst files) \<Longrightarrow>
   distinct (glob_pickle c files) \<and> (\<forall>p\<in>set (glob_pickle c files). map_of files p \<noteq> None)"
  by (auto simp: glob_pickle_def map_of_eq_None_iff)

text \<open>
  Claim C7. On a directory in which every path occurs once, \<^verbatim>\<open>clear_expired\<close> returns
  normally, and afterwards every path holds what it held before, except the
  \<^verbatim>\<open>*.pickle\<close> files of the cache directory whose age exceeded the ttl when the loop
  examined them (at the clock reading of their iteration): exactly these are gone.
\<close>

theorem clear_expired_exact:
  assumes "distinct (map fst files)"
  shows "\<exists>files'. clear_expired c clock files = Inr files' \<and>
     (\<forall>p. map_of files' p =
        (case position p (glob_pickle c files) of
           None \<Rightarrow> map_of files p
         | Some j \<Rightarrow>
             (case map_of files p of
                None \<Rightarrow> None
              | Some f \<Rightarrow> if clock j - mtime f > real_of_int (ttl c) then None else Some f)))"
proof -
  from glob_pickle_props[OF assms, of c]
  have d: "distinct (glob_pickle c files)"
    and p: "\<forall>p\<in>set (glob_pickle c files). map_of files p \<noteq> None"
    by blast+
  from clear_expired_loop_spec[OF d p, of c clock 0] show ?thesis
    unfolding clear_expired_def add_0 .
qed

text \<open>
  An instance with ttl 60 and a sweep that starts at time 100: the entry of age 100 is
  removed; the entry of age 51, a file that is no \<^verbatim>\<open>*.pickle\<close> and a file of another
  directory stay as they were.
\<close>

theorem clear_expired_exact_witness:
  "distinct (map fst
     [((''d'', ''a.pickle''), \<lparr>mtime = 0, content = Pickled (PInt 1)\<rparr>),
      ((''d'', ''b.pickle''), \<lparr>mtime = 50, content = Pickled (PInt 2)\<rparr>),
      ((''d'', ''notes.txt''), \<lparr>mtime = 0, content = Undecodable UnpicklingError\<rparr>),
      ((''e'', ''a.pickle''), \<lparr>mtime = 0, content = Pickled (PInt 3)\<rparr>)])
   \<and> (\<exists>files'.
        clear_expired \<lparr>cache_dir = ''d'', ttl = 60\<rparr> (\<lambda>i. 100 + real i)
          [((''d'', ''a.pickle''), \<lparr>mtime = 0, content = Pickled (PInt 1)\<rparr>),
           ((''d'', ''b.pickle''), \<lparr>mtime = 50, content = Pickled (PInt 2)\<rparr>),
           ((''d'', ''notes.txt''), \<lparr>mtime = 0, content = Undecodable UnpicklingError\<rparr>),
           ((''e'', ''a.pickle''), \<lparr>mtime = 0, content = Pickled (PInt 3)\<rparr>)] = Inr files'
        \<and> map_of files' (''d'', ''a.pickle'') = None
        \<and> map_of files' (''d'', ''b.pickle'') = Some \<lparr>mtime = 50, content = Pickled (PInt 2)\<rparr>
        \<and> map_of files' (''d'', ''notes.txt'')
            = Some \<lparr>mtime = 0, content = Undecodable UnpicklingError\<rparr>
        \<and> map_of files' (''e'', ''a.pickle'') = Some \<lparr>mtime = 0, content = Pickled (PInt 3)\<rparr>)"
proof -
  let ?F = "[((''d'', ''a.pickle''), \<lparr>mtime = 0, content = Pickled (PInt 1)\<rparr>),
           ((''d'', ''b.pickle''), \<lparr>mtime = 50, content = Pickled (PInt 2)\<rparr>),
           ((''d'', ''notes.txt''), \<lparr>mtime = 0, content = Undecodable UnpicklingError\<rparr>),
           ((''e'', ''a.pickle''), \<lparr>mtime = 0, content = Pickled (PInt 3)\<rparr>)]"
  have d: "distinct (map fst ?F)" by simp
  have g: "glob_pickle \<lparr>cache_dir = ''d'', ttl = 60\<rparr> ?F = [(''d'', ''a.pickle''), (''d'', ''b.pickle'')]"
    by (simp add: glob_pickle_def is_pickle_name_def)
  from clear_expired_exact[OF d, of "\<lparr>cache_dir = ''d'', ttl = 60\<rparr>" "\<lambda>i. 100 + real i"]
  obtain files' where
    r: "clear_expired \<lparr>cache_dir = ''d'', ttl = 60\<rparr> (\<lambda>i. 100 + real i) ?F = Inr files'" and
    s: "\<And>p. map_of files' p =
        (case position p (glob_pickle \<lparr>cache_dir = ''d'', ttl = 60\<rparr> ?F) of
           None \<Rightarrow> map_of ?F p
         | Some j \<Rightarrow>
             (case map_of ?F p of
                None \<Rightarrow> None
              | Some f \<Rightarrow> if (100 + real j) - mtime f > real_of_int (ttl \<lparr>cache_dir = ''d'', ttl = 60\<rparr>)
                          then None else Some f))"
    by blast
  have "map_of files' (''d'', ''a.pickle'') = None"
    unfolding s g by simp
  moreover have "map_of files' (''d'', ''b.pickle'') = Some \<lparr>mtime = 50, content = Pickled (PInt 2)\<rparr>"
    unfolding s g by simp
  moreover have "map_of files' (''d'', ''notes.txt'')
            = Some \<lparr>mtime = 0, content = Undecodable UnpicklingError\<rparr>"
    unfolding s g by simp
  moreover have "map_of files' (''e'', ''a.pickle'') = Some \<lparr>mtime = 0, content = Pickled (PInt 3)\<rparr>"
    unfolding s g by simp
  ultimately show ?thesis using d r by blast
qed

text \<open>\<^verbatim>\<open>Cache.clear\<close> removes every \<^verbatim>\<open>*.pickle\<close> file of the directory and nothing else; every
  \<^verbatim>\<open>get\<close> on the same cache is a miss afterwards.\<close>

lemma clear_loop_map_of:
  "map_of (clear_loop ps files) p = (if p \<in> set ps then None else map_of files p)"
  by (induction ps arbitrary: files) (auto simp: delete_conv')

lemma clear_removes_all:
  "map_of (clear c files) p =
     (if fst p = cache_dir c \<and> is_pickle_name (snd p) then None else map_of files p)"
proof -
  have "p \<in> set (glob_pickle c files) \<longleftrightarrow>
        p \<in> fst ` set files \<and> fst p = cache_dir c \<and> is_pickle_name (snd p)"
    by (auto simp: glob_pickle_def)
  then show ?thesis
    by (auto simp: clear_def clear_loop_map_of map_of_eq_None_iff)
qed

lemma is_pickle_name_append: "is_pickle_name (key @ ''.pickle'')"
  by (simp add: is_pickle_name_def)

lemma get_after_clear: "get c (clear c files) now key = Inr (False, PNone)"
  by (simp add: get_def clear_removes_all get_cache_path_def is_pickle_name_append)

section \<open>Properties of the wrapper\<close>

lemma wrapper_unfold:
  "wrapper md5 repr c func t_get t_set args kwargs0 files =
     (if \<not> truthy (case map_of kwargs0 ''force_refresh'' of None \<Rightarrow> PBool False | Some v \<Rightarrow> v)
      then
        (case get c files t_get (get_cache_key md5 repr (PStr (func_name func) # args)
                (AList.delete ''force_refresh'' kwargs0)) of
           Inl e \<Rightarrow> \<lparr>result = Inl e, files_after = files, calls = [], printed = []\<rparr>
         | Inr (hit, v) \<Rightarrow>
             if hit then
               \<lparr>result = Inr v, files_after = files, calls = [],
                printed = (if verbose args
                           then [''Using cached data for '' @ func_name func] else [])\<rparr>
             else fresh_run c func (get_cache_key md5 repr (PStr (func_name func) # args)
                (AList.delete ''force_refresh'' kwargs0)) t_set args
                (AList.delete ''force_refresh'' kwargs0) files)
      else fresh_run c func (get_cache_key md5 repr (PStr (func_name func) # args)
                (AList.delete ''force_refresh'' kwargs0)) t_set args
                (AList.delete ''force_refresh'' kwargs0) files)"
  unfolding wrapper_def fresh_run_def Let_def by (rule refl)




lemma fresh_run_raises:
  "func_call func args kwargs = Inl e \<Longrightarrow>
   fresh_run c func key t args kwargs files =
     \<lparr>result = Inl e, files_after = files, calls = [(args, kwargs)], printed = []\<rparr>"
  by (simp add: fresh_run_def)

lemma fresh_run_lazy_raises:
  "func_call func args kwargs = Inr (PGen xs (Some e)) \<Longrightarrow>
   fresh_run c func key t args kwargs files =
     \<lparr>result = Inl e, files_after = files, calls = [(args, kwargs)], printed = []\<rparr>"
  by (simp add: fresh_run_def)


lemma calls_wrapper_cases:
  "calls (wrapper md5 repr c func t_get t_set args kwargs0 files) = []
   \<or> wrapper md5 repr c func t_get t_set args kwargs0 files
      = fresh_run c func (get_cache_key md5 repr (PStr (func_name func) # args)
                (AList.delete ''force_refresh'' kwargs0)) t_set args
                (AList.delete ''force_refresh'' kwargs0) files"
  by (simp add: wrapper_unfold split: sum.splits prod.splits)








text \<open>
  Claim C5. If the wrapped callable raises, at the call or later, while the generator it
  returned is drained, then no entry is persisted: the files after the call of the wrapper
  are exactly the files before it. Whenever the wrapper invoked the callable, which it does
  when the flag \<^verbatim>\<open>force_refresh\<close> is true and when the lookup is a miss, the wrapper raises
  this same exception, and it made this one call.
\<close>

theorem upstream_failure_propagates:
  assumes "func_call func args (AList.delete ''force_refresh'' kwargs0) = Inl e
           \<or> func_call func args (AList.delete ''force_refresh'' kwargs0) = Inr (PGen xs (Some e))"
  shows "files_after (wrapper md5 repr c func t_get t_set args kwargs0 files) = files
       \<and> (calls (wrapper md5 repr c func t_get t_set args kwargs0 files) \<noteq> [] \<longrightarrow>
            result (wrapper md5 repr c func t_get t_set args kwargs0 files) = Inl e
            \<and> calls (wrapper md5 repr c func t_get t_set args kwargs0 files)
                = [(args, AList.delete ''force_refresh'' kwargs0)])
       \<and> (truthy (case map_of kwargs0 ''force_refresh'' of None \<Rightarrow> PBool False | Some v \<Rightarrow> v)
            \<or> get c files t_get (get_cache_key md5 repr (PStr (func_name func) # args)
                  (AList.delete ''force_refresh'' kwargs0)) = Inr (False, PNone) \<longrightarrow>
            result (wrapper md5 repr c func t_get t_set args kwargs0 files) = Inl e
            \<and> calls (wrapper md5 repr c func t_get t_set args kwargs0 files)
                = [(args, AList.delete ''force_refresh'' kwargs0)])"
proof -
  let ?kw = "AList.delete ''force_refresh'' kwargs0"
  let ?key = "get_cache_key md5 repr (PStr (func_name func) # args) ?kw"
  let ?W = "wrapper md5 repr c func t_get t_set args kwargs0 files"
  have F: "fresh_run c func ?key t_set args ?kw files =
      \<lparr>result = Inl e, files_after = files, calls = [(args, ?kw)], printed = []\<rparr>"
    using assms fresh_run_raises[of func args ?kw e c ?key t_set files]
      fresh_run_lazy_raises[of func args ?kw xs e c ?key t_set files] by blast
  have a: "files_after ?W = files"
    by (simp add: wrapper_unfold F split: sum.splits prod.splits)
  have b: "result ?W = Inl e \<and> calls ?W = [(args, ?kw)]" if "calls ?W \<noteq> []"
    using that calls_wrapper_cases[of md5 repr c func t_get t_set args kwargs0 files] F by auto
  have d: "result ?W = Inl e \<and> calls ?W = [(args, ?kw)]"
    if "truthy (case map_of kwargs0 ''force_refresh'' of None \<Rightarrow> PBool False | Some v \<Rightarrow> v)
        \<or> get c files t_get ?key = Inr (False, PNone)"
    using that by (auto simp: wrapper_unfold F)
  show ?thesis using a b d by blast
qed

text \<open>
  Two instances on an empty cache: a callable that raises a connection error at the call,
  and a callable whose generator yields one record and then raises a parse error.
\<close>

theorem upstream_failure_propagates_witness:
  "func_call \<lparr>func_name = ''load'', func_call = (\<lambda>a k. Inl (OtherError ''ConnectionError''))\<rparr>
      [PStr ''s3://logs''] (AList.delete ''force_refresh'' [(''days'', PInt 7)])
     = Inl (OtherError ''ConnectionError'')
   \<and> (\<forall>md5 repr.
        calls (wrapper md5 repr \<lparr>cache_dir = ''d'', ttl = 3600\<rparr>
                \<lparr>func_name = ''load'', func_call = (\<lambda>a k. Inl (OtherError ''ConnectionError''))\<rparr>
                0 0 [PStr ''s3://logs''] [(''days'', PInt 7)] []) \<noteq> []
      \<and> get \<lparr>cache_dir = ''d'', ttl = 3600\<rparr> [] 0
            (get_cache_key md5 repr [PStr ''load'', PStr ''s3://logs''] [(''days'', PInt 7)])
          = Inr (False, PNone)
      \<and> result (wrapper md5 repr \<lparr>cache_dir = ''d'', ttl = 3600\<rparr>
                \<lparr>func_name = ''load'', func_call = (\<lambda>a k. Inl (OtherError ''ConnectionError''))\<rparr>
                0 0 [PStr ''s3://logs''] [(''days'', PInt 7)] [])
          = Inl (OtherError ''ConnectionError'')
      \<and> files_after (wrapper md5 repr \<lparr>cache_dir = ''d'', ttl = 3600\<rparr>
                \<lparr>func_name = ''load'', func_call = (\<lambda>a k. Inl (OtherError ''ConnectionError''))\<rparr>
                0 0 [PStr ''s3://logs''] [(''days'', PInt 7)] [])
          = [])
   \<and> func_call \<lparr>func_name = ''read'',
                  func_call = (\<lambda>a k. Inr (PGen [PStr ''a''] (Some (OtherError ''ParseError''))))\<rparr>
      [] (AList.delete ''force_refresh'' [])
     = Inr (PGen [PStr ''a''] (Some (OtherError ''ParseError'')))
   \<and> (\<forall>md5 repr.
        calls (wrapper md5 repr \<lparr>cache_dir = ''d'', ttl = 3600\<rparr>
                \<lparr>func_name = ''read'',
                 func_call = (\<lambda>a k. Inr (PGen [PStr ''a''] (Some (OtherError ''ParseError''))))\<rparr>
                0 0 [] [] []) \<noteq> []
      \<and> result (wrapper md5 repr \<lparr>cache_dir = ''d'', ttl = 3600\<rparr>
                \<lparr>func_name = ''read'',
                 func_call = (\<lambda>a k. Inr (PGen [PStr ''a''] (Some (OtherError ''ParseError''))))\<rparr>
                0 0 [] [] [])
          = Inl (OtherError ''ParseError'')
      \<and> files_after (wrapper md5 repr \<lparr>cache_dir = ''d'', ttl = 3600\<rparr>
                \<lparr>func_name = ''read'',
                 func_call = (\<lambda>a k. Inr (PGen [PStr ''a''] (Some (OtherError ''ParseError''))))\<rparr>
                0 0 [] [] [])
          = [])"
proof -
  let ?c = "\<lparr>cache_dir = ''d'', ttl = 3600\<rparr>"
  let ?f = "\<lparr>func_name = ''load'', func_call = (\<lambda>a k. Inl (OtherError ''ConnectionError''))\<rparr>"
  let ?g = "\<lparr>func_name = ''read'',
             func_call = (\<lambda>a k. Inr (PGen [PStr ''a''] (Some (OtherError ''ParseError''))))\<rparr>"
  have f1: "func_call ?f [PStr ''s3://logs''] (AList.delete ''force_refresh'' [(''days'', PInt 7)])
     = Inl (OtherError ''ConnectionError'')"
    by simp
  have g1: "func_call ?g [] (AList.delete ''force_refresh'' [])
     = Inr (PGen [PStr ''a''] (Some (OtherError ''ParseError'')))"
    by simp
  have f2: "calls (wrapper md5 repr ?c ?f 0 0 [PStr ''s3://logs''] [(''days'', PInt 7)] []) \<noteq> []"
    for md5 repr
    by (simp add: wrapper_def Let_def get_def)
  have f3: "get ?c [] 0
            (get_cache_key md5 repr [PStr ''load'', PStr ''s3://logs''] [(''days'', PInt 7)])
          = Inr (False, PNone)" for md5 repr
    by (simp add: get_def)
  have g2: "calls (wrapper md5 repr ?c ?g 0 0 [] [] []) \<noteq> []" for md5 repr
    by (simp add: wrapper_def Let_def get_def)
  have first: "result (wrapper md5 repr ?c ?f 0 0 [PStr ''s3://logs''] [(''days'', PInt 7)] [])
          = Inl (OtherError ''ConnectionError'')
      \<and> files_after (wrapper md5 repr ?c ?f 0 0 [PStr ''s3://logs''] [(''days'', PInt 7)] []) = []"
    for md5 repr
    using f2[of md5 repr]
      upstream_failure_propagates[of ?f "[PStr ''s3://logs'']" "[(''days'', PInt 7)]"
        "OtherError ''ConnectionError''" "[]" md5 repr ?c 0 0 "[]"] f1
    by simp
  have second: "result (wrapper md5 repr ?c ?g 0 0 [] [] []) = Inl (OtherError ''ParseError'')
      \<and> files_after (wrapper md5 repr ?c ?g 0 0 [] [] []) = []" for md5 repr
    using g2[of md5 repr]
      upstream_failure_propagates[of ?g "[]" "[]" "OtherError ''ParseError''" "[PStr ''a'']"
        md5 repr ?c 0 0 "[]"] g1
    by simp
  show ?thesis
    using f1 f2 f3 g1 g2 first second by blast
qed



text \<open>
  Claim C1 says that a result which is already a realized aggregate, a set included, is
  returned unchanged. The wrapper converts every result that has \<^verbatim>\<open>__iter__\<close> and is not
  a list, tuple or dict: a set comes back as a list, and so does a string, character by
  character.
\<close>

theorem set_and_str_results_become_lists:
  "result (wrapper md5 repr c \<lparr>func_name = ''tags'', func_call = (\<lambda>a k. Inr (PSet [PInt 1, PInt 2]))\<rparr>
             0 0 [] [] [])
     = Inr (PList [PInt 1, PInt 2])
   \<and> result (wrapper md5 repr c \<lparr>func_name = ''region'', func_call = (\<lambda>a k. Inr (PStr ''eu''))\<rparr>
             0 0 [] [] [])
     = Inr (PList [PStr ''e'', PStr ''u''])"
  by (simp add: wrapper_def Let_def get_def set_entry_def pickle_dump_def)

text \<open>
  The scenario of the specification: ttl 1 and a callable that returns 42. The call
  \<^verbatim>\<open>f(x=1)\<close> at time 0 invokes the callable and leaves one entry; the call at time 0.5
  returns 42 without invoking it; the call at time 1.5 invokes it again.
\<close>

lemma scenario_ttl_1:
  "(let c = \<lparr>cache_dir = ''d'', ttl = 1\<rparr>;
        f = \<lparr>func_name = ''f'', func_call = (\<lambda>a k. Inr (PInt 42))\<rparr>;
        r0 = wrapper md5 repr c f 0 0 [] [(''x'', PInt 1)] [];
        r1 = wrapper md5 repr c f (1 / 2) (1 / 2) [] [(''x'', PInt 1)] (files_after r0);
        r2 = wrapper md5 repr c f (3 / 2) (3 / 2) [] [(''x'', PInt 1)] (files_after r1)
    in result r0 = Inr (PInt 42) \<and> length (files_after r0) = 1
       \<and> calls r0 = [([], [(''x'', PInt 1)])]
       \<and> result r1 = Inr (PInt 42) \<and> calls r1 = []
       \<and> result r2 = Inr (PInt 42) \<and> calls r2 = [([], [(''x'', PInt 1)])])"
  by (simp add: wrapper_def Let_def get_def set_entry_if)

end
